theory Spec2Isabelle
  imports Main "HOL-Library.Sublist"
begin

section \<open>Python regular expressions: a backtracking matcher\<close>

text \<open>
  \<^verbatim>\<open>daily_programmer_helper.py\<close> does its work with four compiled patterns of Python's
  \<^verbatim>\<open>re\<close> module. The matcher below follows the backtracking engine of CPython: alternatives
  are tried in priority order (a greedy repeat tries one more iteration before it tries the
  rest of the pattern, a lazy repeat the other way round), and the first path on which the
  rest of the pattern succeeds is the match. The rest of the pattern is the continuation
  \<open>k\<close>; failure is \<open>None\<close>.

  A Python \<^verbatim>\<open>str\<close> is a sequence of code points; a \<^typ>\<open>string\<close> here is a sequence of
  the code points below 256, which is where the tables of \<^verbatim>\<open>\s\<close> and \<^verbatim>\<open>\w\<close> below are
  taken from (\<^verbatim>\<open>str.isspace\<close>, and \<^verbatim>\<open>str.isalnum\<close> or the underscore).
\<close>

abbreviation NL :: char where
  "NL \<equiv> CHR 0x0A"

definition is_space :: "char \<Rightarrow> bool" where
  "is_space ch = (let n = (of_char ch :: nat) in
     (9 \<le> n \<and> n \<le> 13) \<or> (28 \<le> n \<and> n \<le> 32) \<or> n = 133 \<or> n = 160)"

definition is_word :: "char \<Rightarrow> bool" where
  "is_word ch = (let n = (of_char ch :: nat) in
     (48 \<le> n \<and> n \<le> 57) \<or> (65 \<le> n \<and> n \<le> 90) \<or> n = 95 \<or> (97 \<le> n \<and> n \<le> 122)
     \<or> n = 170 \<or> n = 178 \<or> n = 179 \<or> n = 181 \<or> n = 185 \<or> n = 186
     \<or> (188 \<le> n \<and> n \<le> 190) \<or> (192 \<le> n \<and> n \<le> 214) \<or> (216 \<le> n \<and> n \<le> 246)
     \<or> (248 \<le> n \<and> n \<le> 255))"

definition word_or_space :: "char \<Rightarrow> bool" where
  \<comment> \<open>the class \<^verbatim>\<open>[\w\s]\<close>\<close>
  "word_or_space ch = (is_word ch \<or> is_space ch)"

definition dot :: "char \<Rightarrow> bool" where
  \<comment> \<open>\<^verbatim>\<open>.\<close> without the DOTALL flag: anything but a newline\<close>
  "dot ch = (ch \<noteq> NL)"

definition not_backtick :: "char \<Rightarrow> bool" where
  \<comment> \<open>the class \<^verbatim>\<open>[^`]\<close>\<close>
  "not_backtick ch = (ch \<noteq> CHR 0x60)"

definition is_newline :: "char \<Rightarrow> bool" where
  "is_newline ch = (ch = NL)"

datatype rx =
    Eps
  | Ch "char \<Rightarrow> bool"
  | Lit string
  | Cat rx rx
  | Opt rx
  | Star rx
  | StarLazy rx
  | Grp nat rx

text \<open>
  \<open>Ch P\<close> is one character of a class, \<open>Lit w\<close> a literal, \<open>Opt r\<close> is \<^verbatim>\<open>r?\<close>, \<open>Star r\<close>
  is \<^verbatim>\<open>r*\<close>, \<open>StarLazy r\<close> is \<^verbatim>\<open>r*?\<close> and \<open>Grp n r\<close> is the capturing group number
  \<open>n\<close>. A non-capturing group \<^verbatim>\<open>(?:...)\<close> is the sequence of its parts.
\<close>

type_synonym caps = "(nat \<times> string) list"

text \<open>
  The captures are an association list, the latest capture of a group first. A repeat
  whose body has matched the empty string does not iterate again but goes on with the rest
  of the pattern (the zero-width protection of \<^verbatim>\<open>MAX_UNTIL\<close> and \<^verbatim>\<open>MIN_UNTIL\<close>).
\<close>

fun rx_match :: "rx \<Rightarrow> string \<Rightarrow> caps \<Rightarrow> (string \<Rightarrow> caps \<Rightarrow> 'a option) \<Rightarrow> 'a option" where
  "rx_match Eps s c k = k s c"
| "rx_match (Ch P) s c k = (case s of [] \<Rightarrow> None | x # xs \<Rightarrow> if P x then k xs c else None)"
| "rx_match (Lit w) s c k = (if prefix w s then k (drop (length w) s) c else None)"
| "rx_match (Cat r1 r2) s c k = rx_match r1 s c (\<lambda>s' c'. rx_match r2 s' c' k)"
| "rx_match (Opt r) s c k = (case rx_match r s c k of Some y \<Rightarrow> Some y | None \<Rightarrow> k s c)"
| "rx_match (Star r) s c k =
     (case rx_match r s c
             (\<lambda>s' c'. if length s' < length s then rx_match (Star r) s' c' k else k s' c') of
        Some y \<Rightarrow> Some y
      | None \<Rightarrow> k s c)"
| "rx_match (StarLazy r) s c k =
     (case k s c of
        Some y \<Rightarrow> Some y
      | None \<Rightarrow> rx_match r s c
             (\<lambda>s' c'. if length s' < length s then rx_match (StarLazy r) s' c' k else k s' c'))"
| "rx_match (Grp n r) s c k =
     rx_match r s c (\<lambda>s' c'. k s' ((n, take (length s - length s') s) # c'))"

definition Plus :: "rx \<Rightarrow> rx" where
  \<comment> \<open>\<^verbatim>\<open>r+\<close>: one \<open>r\<close>, then as many as possible\<close>
  "Plus r = Cat r (Star r)"

fun seq :: "rx list \<Rightarrow> rx" where
  "seq [] = Eps"
| "seq (r # rs) = Cat r (seq rs)"

text \<open>
  \<open>match_at r s must_advance\<close> is the match of \<open>r\<close> that starts at the beginning of \<open>s\<close>:
  the text after the match and the captures. With \<open>must_advance\<close> an empty match does not
  count, and the engine backtracks for a longer one.
\<close>

definition match_at :: "rx \<Rightarrow> string \<Rightarrow> bool \<Rightarrow> (string \<times> caps) option" where
  "match_at r s must_advance =
     rx_match r s []
       (\<lambda>s' c'. if must_advance \<and> length s' = length s then None else Some (s', c'))"

text \<open>
  \<^verbatim>\<open>pattern.search(text)\<close> tries every start position from the left, the end of the text
  included. The result holds the text before the match, the text after it and the captures.
\<close>

fun search :: "rx \<Rightarrow> string \<Rightarrow> (string \<times> string \<times> caps) option" where
  "search r [] = map_option (\<lambda>(s', c). ([], s', c)) (match_at r [] False)"
| "search r (x # xs) =
     (case match_at r (x # xs) False of
        Some (s', c) \<Rightarrow> Some ([], s', c)
      | None \<Rightarrow> map_option (\<lambda>(p, s', c). (x # p, s', c)) (search r xs))"

text \<open>
  A replacement template is a list of literal pieces and group references; a group that
  took no part in the match expands to the empty string.
\<close>

datatype tpl = TLit string | TGrp nat

definition group :: "caps \<Rightarrow> nat \<Rightarrow> string" where
  "group c n = (case map_of c n of None \<Rightarrow> [] | Some w \<Rightarrow> w)"

fun expand :: "tpl list \<Rightarrow> caps \<Rightarrow> string" where
  "expand [] c = []"
| "expand (TLit w # t) c = w @ expand t c"
| "expand (TGrp n # t) c = group c n @ expand t c"

text \<open>
  \<^verbatim>\<open>re.sub(pattern, repl, text)\<close> replaces the non-overlapping matches from the left. After
  a match the search goes on where the match ended; after an empty match it goes on at the
  same place, where the next match must not be empty. Text that no match covers is copied.
  The second branch below cannot be taken, since \<open>match_at\<close> with \<open>must_advance\<close> returns no
  empty match; it copies a character, as a failed match does.
\<close>

function sub_loop :: "rx \<Rightarrow> tpl list \<Rightarrow> string \<Rightarrow> bool \<Rightarrow> string" where
  "sub_loop r t s must_advance =
     (case match_at r s must_advance of
        Some (s', c) \<Rightarrow>
          if length s' < length s then expand t c @ sub_loop r t s' False
          else if must_advance then (case s of [] \<Rightarrow> [] | x # xs \<Rightarrow> x # sub_loop r t xs False)
          else expand t c @ sub_loop r t s True
      | None \<Rightarrow> (case s of [] \<Rightarrow> [] | x # xs \<Rightarrow> x # sub_loop r t xs False))"
  by pat_completeness auto
termination
  by (relation "measure (\<lambda>(r, t, s, adv). 2 * length s + (if adv then 0 else 1))") auto

definition sub :: "rx \<Rightarrow> tpl list \<Rightarrow> string \<Rightarrow> string" where
  "sub r t s = sub_loop r t s False"

section \<open>The helper's patterns and constants\<close>

definition directory :: string where
  "directory = ''ToBePublished/''"

definition filename :: string where
  "filename = ''index.md''"

definition challenges_separator :: string where
  \<comment> \<open>\<^verbatim>\<open>"\n\n\n---\n\n\n"\<close>\<close>
  "challenges_separator = [NL, NL, NL] @ ''---'' @ [NL, NL, NL]"

definition CHALLENGE_REGEX :: rx where
  \<comment> \<open>\<^verbatim>\<open>===?\s+([\w\s]+)\-?[\w\s]*\s+=?==\<close>\<close>
  "CHALLENGE_REGEX = seq [Lit ''=='', Opt (Lit ''=''), Plus (Ch is_space),
     Grp 1 (Plus (Ch word_or_space)), Opt (Lit ''-''), Star (Ch word_or_space),
     Plus (Ch is_space), Opt (Lit ''=''), Lit ''=='']"

definition CODE_BLOCS_REGEX :: rx where
  \<comment> \<open>\<^verbatim>\<open>(```)((?:[^`]*\n*)*?)(```)\<close>\<close>
  "CODE_BLOCS_REGEX = seq [Grp 1 (Lit ''```''),
     Grp 2 (StarLazy (seq [Star (Ch not_backtick), Star (Ch is_newline)])),
     Grp 3 (Lit ''```'')]"

definition TITLE_REGEX :: rx where
  \<comment> \<open>\<^verbatim>\<open>(?:\*\={3}\s)(.*)(?:\s-\sDaily\sProgrammer\s\={3}\*\n*?\*\[)(.*)(?:\]\*)\<close>\<close>
  "TITLE_REGEX = seq [seq [Lit ''*'', Lit ''==='', Ch is_space],
     Grp 1 (Star (Ch dot)),
     seq [Ch is_space, Lit ''-'', Ch is_space, Lit ''Daily'', Ch is_space, Lit ''Programmer'',
          Ch is_space, Lit ''==='', Lit ''*'', StarLazy (Ch is_newline), Lit ''*'', Lit ''[''],
     Grp 2 (Star (Ch dot)),
     seq [Lit '']'', Lit ''*'']]"

definition image_prefix :: string where
  "image_prefix = ''https://assets.leetcode.com/uploads/''"

definition IMAGES_REGEX :: rx where
  \<comment> \<open>\<^verbatim>\<open><(https://assets\.leetcode\.com/uploads/.*?)>\<close>\<close>
  "IMAGES_REGEX = seq [Lit ''<'', Grp 1 (seq [Lit image_prefix, StarLazy (Ch dot)]), Lit ''>'']"

definition TITLE_REPL :: "tpl list" where
  \<comment> \<open>\<^verbatim>\<open>r"\2 -- \1"\<close>\<close>
  "TITLE_REPL = [TGrp 2, TLit '' -- '', TGrp 1]"

definition CODE_BLOCS_REPL :: "tpl list" where
  \<comment> \<open>\<^verbatim>\<open>r"\1\n\2\n\3"\<close>\<close>
  "CODE_BLOCS_REPL = [TGrp 1, TLit [NL], TGrp 2, TLit [NL], TGrp 3]"

definition IMAGES_REPL :: "tpl list" where
  \<comment> \<open>\<^verbatim>\<open>r"![Illustration](\1)\n"\<close>\<close>
  "IMAGES_REPL = [TLit ''![Illustration]('', TGrp 1, TLit '')'', TLit [NL]]"

section \<open>The language of a pattern\<close>

text \<open>
  The strings that a pattern can match, without regard to the order in which the matcher
  tries them: the usual semantics of regular expressions. The iterations of a repeat are
  taken non-empty, which gives the same language.
\<close>

inductive_set star :: "string set \<Rightarrow> string set" for L :: "string set" where
  star_Nil: "[] \<in> star L"
| star_step: "u \<in> L \<Longrightarrow> u \<noteq> [] \<Longrightarrow> v \<in> star L \<Longrightarrow> u @ v \<in> star L"

fun lang :: "rx \<Rightarrow> string set" where
  "lang Eps = {[]}"
| "lang (Ch P) = {[x] | x. P x}"
| "lang (Lit w) = {w}"
| "lang (Cat r1 r2) = {u @ v | u v. u \<in> lang r1 \<and> v \<in> lang r2}"
| "lang (Opt r) = insert [] (lang r)"
| "lang (Star r) = star (lang r)"
| "lang (StarLazy r) = star (lang r)"
| "lang (Grp n r) = lang r"

text \<open>
  The banner of a challenge, in words: two or three equals signs, white space, one or more
  word or white-space characters, possibly a hyphen, word or white-space characters, white
  space, and two or three equals signs. A text contains a banner when some part of it is
  one.
\<close>

definition challenge_banner :: "string \<Rightarrow> bool" where
  "challenge_banner w \<longleftrightarrow>
     (\<exists>e1 ws1 g h q ws2 e2.
        w = ''=='' @ e1 @ ws1 @ g @ h @ q @ ws2 @ e2 @ ''==''
        \<and> (e1 = [] \<or> e1 = ''='')
        \<and> ws1 \<noteq> [] \<and> list_all is_space ws1
        \<and> g \<noteq> [] \<and> list_all word_or_space g
        \<and> (h = [] \<or> h = ''-'')
        \<and> list_all word_or_space q
        \<and> ws2 \<noteq> [] \<and> list_all is_space ws2
        \<and> (e2 = [] \<or> e2 = ''=''))"

definition contains_banner :: "string \<Rightarrow> bool" where
  "contains_banner t \<longleftrightarrow> (\<exists>pre w post. t = pre @ w @ post \<and> challenge_banner w)"

section \<open>Messages, exceptions and the transformer\<close>

text \<open>
  A message is a Slack record of which the helper reads the field \<^verbatim>\<open>text\<close> only, with
  \<^verbatim>\<open>message.get('text')\<close>: \<open>None\<close> when the field is absent. The other fields of a message
  are the extension of the record.
\<close>

record message =
  "text" :: "string option"

datatype 'm exn =
    MessageTypeException string 'm
  | FileOpeningModeException string
  | TypeError
  | NoSuchPathError

definition modification_1 :: "string \<Rightarrow> string" where
  "modification_1 t = ''## '' @ sub TITLE_REGEX TITLE_REPL t"

definition modification_2 :: "string \<Rightarrow> string" where
  "modification_2 t = sub CODE_BLOCS_REGEX CODE_BLOCS_REPL t"

definition modification_3 :: "string \<Rightarrow> string" where
  "modification_3 t = sub IMAGES_REGEX IMAGES_REPL t"

definition format_messages :: "'a message_scheme \<Rightarrow> 'a message_scheme exn + string" where
  "format_messages message =
     (case text message of
        None \<Rightarrow> Inl (MessageTypeException ''The message doesn't match the pattern'' message)
      | Some t \<Rightarrow>
          if search CHALLENGE_REGEX t = None
          then Inl (MessageTypeException ''The message doesn't match the pattern'' message)
          else Inr (modification_3 (modification_2 (modification_1 t))))"

section \<open>The file, the repository and the output\<close>

text \<open>
  What the helper does to its surroundings is recorded in a \<open>world\<close>: whether the directory
  \<^verbatim>\<open>ToBePublished/\<close> exists, the content of \<^verbatim>\<open>index.md\<close> in it, whether the directory is
  a git repository, the content of \<^verbatim>\<open>index.md\<close> on the remote branch after the last push,
  and the sequence of everything done so far: lines printed, the directory created, the
  file written and git commands run. The operations of the file system and of git are taken
  to succeed.
\<close>

datatype event =
    Print string
  | MkDir string
  | FileWrite string string string
  | Git string

record world =
  REPO_URL :: string
  dir_exists :: bool
  index_md :: "string option"
  is_repo :: bool
  pushed :: "string option"
  trace :: "event list"

definition emit :: "event list \<Rightarrow> world \<Rightarrow> world" where
  "emit es w = w\<lparr>trace := trace w @ es\<rparr>"

definition amend_commands :: "string list" where
  "amend_commands = [''add .'', ''commit --amend --no-edit'', ''push -f'']"

definition init_commands :: "string \<Rightarrow> string list" where
  "init_commands url =
     [''init'',
      ''config user.name Daily Programmer Bot'',
      ''config user.email daily@programmer.bot'',
      ''remote add origin '' @ url,
      ''add .'',
      ''commit -m Deploying to gh-pages'',
      ''branch gh-pages'',
      ''checkout gh-pages'',
      ''fetch origin'',
      ''push -f --set-upstream origin gh-pages'']"

definition amend_and_push :: "world \<Rightarrow> world" where
  \<comment> \<open>the directory is a repository: stage, amend the tip commit, force-push\<close>
  "amend_and_push w = emit (map Git amend_commands) (w\<lparr>pushed := index_md w\<rparr>)"

definition init_and_push :: "world \<Rightarrow> world" where
  \<comment> \<open>\<^verbatim>\<open>InvalidGitRepositoryError\<close> was raised: create the repository and push the new branch\<close>
  "init_and_push w =
     emit (map Git (init_commands (REPO_URL w))) (w\<lparr>is_repo := True, pushed := index_md w\<rparr>)"

definition publish_challenges :: "world \<Rightarrow> ('m exn + unit) \<times> world" where
  "publish_challenges w =
     (let w1 = emit [Print ''Publishing result...''] w in
      if \<not> dir_exists w1 then (Inl NoSuchPathError, w1)
      else
        let w2 = (if is_repo w1 then amend_and_push w1 else init_and_push w1)
        in (Inr (), emit [Print ''Done.''] w2))"

definition write_file :: "string \<Rightarrow> string \<Rightarrow> world \<Rightarrow> world" where
  \<comment> \<open>\<^verbatim>\<open>with open(path, mode) as f: f.writelines(challenges)\<close>, for the modes a and w\<close>
  "write_file mode challenges w =
     emit [FileWrite (directory @ filename) mode challenges]
       (w\<lparr>index_md := Some (if mode = ''a''
                         then (case index_md w of None \<Rightarrow> [] | Some old \<Rightarrow> old) @ challenges
                         else challenges)\<rparr>)"

definition write_history_to_file :: "string \<Rightarrow> string \<Rightarrow> world \<Rightarrow> ('m exn + unit) \<times> world" where
  "write_history_to_file challenges mode w =
     (let w1 = emit [Print ''Writing history to file...''] w in
      if mode \<noteq> ''a'' \<and> mode \<noteq> ''w''
      then (Inl (FileOpeningModeException ''Given mode isn't 'a' or 'w'!''), w1)
      else
        let w2 = (if \<not> dir_exists w1 then emit [MkDir directory] (w1\<lparr>dir_exists := True\<rparr>)
                  else w1);
            w3 = write_file mode challenges w2;
            w4 = emit [Print ''Done...''] w3
        in publish_challenges w4)"

text \<open>
  The loop of \<^verbatim>\<open>parse_channel_history\<close> over the reversed messages, with
  \<^verbatim>\<open>complete_history\<close> as the accumulator. Only \<^verbatim>\<open>MessageTypeException\<close> is caught.
\<close>

fun history_loop :: "'a message_scheme list \<Rightarrow> string \<Rightarrow> 'a message_scheme exn + string" where
  "history_loop [] complete_history = Inr complete_history"
| "history_loop (message # messages) complete_history =
     (case format_messages message of
        Inr t \<Rightarrow> history_loop messages (complete_history @ t @ challenges_separator)
      | Inl (MessageTypeException e m) \<Rightarrow> history_loop messages complete_history
      | Inl e \<Rightarrow> Inl e)"

text \<open>
  The documents of a batch: the outputs of the transformer on the messages it accepts, in
  the order of the messages.
\<close>

definition transformed_documents :: "'a message_scheme list \<Rightarrow> string list" where
  "transformed_documents ms =
     concat (map (\<lambda>m. case format_messages m of Inr t \<Rightarrow> [t] | Inl e \<Rightarrow> []) ms)"

record 'm channel_history =
  messages :: "'m list option"

definition parse_channel_history ::
  "'a message_scheme channel_history \<Rightarrow> world \<Rightarrow> ('a message_scheme exn + unit) \<times> world" where
  "parse_channel_history channel_history w =
     (let w1 = emit [Print ''Parsing and formating history...''] w in
      case messages channel_history of
        None \<Rightarrow> (Inl TypeError, w1)
      | Some ms \<Rightarrow>
          (case history_loop (rev ms) [] of
             Inl e \<Rightarrow> (Inl e, w1)
           | Inr complete_history \<Rightarrow>
               let w2 = emit [Print ''Done...''] w1 in
               if complete_history \<noteq> [] then write_history_to_file complete_history ''w'' w2
               else (Inr (), w2)))"

definition parse_message ::
  "'a message_scheme \<Rightarrow> world \<Rightarrow> ('a message_scheme exn + unit) \<times> world" where
  "parse_message message w =
     (case format_messages message of
        Inr t \<Rightarrow> write_history_to_file t ''a'' w
      | Inl (MessageTypeException e m) \<Rightarrow> (Inr (), w)
      | Inl e \<Rightarrow> (Inl e, w))"

text \<open>A world in which nothing has been written or published yet.\<close>

definition fresh_world :: world where
  "fresh_world = \<lparr>REPO_URL = ''git@github.com:73VW/Daily-Programmer-Bot.git'',
     dir_exists = False, index_md = None, is_repo = False, pushed = None, trace = []\<rparr>"

section \<open>Evaluating the patterns on a given text\<close>

declare sub_loop.simps [simp del]

lemmas rx_eval = sub_loop.simps CHALLENGE_REGEX_def TITLE_REGEX_def CODE_BLOCS_REGEX_def IMAGES_REGEX_def
  TITLE_REPL_def CODE_BLOCS_REPL_def IMAGES_REPL_def image_prefix_def
  Plus_def sub_def match_at_def group_def
  is_space_def is_word_def word_or_space_def dot_def not_backtick_def is_newline_def

lemmas fm_eval = format_messages_def modification_1_def modification_2_def modification_3_def
  rx_eval

lemma format_a: "format_messages \<lparr>text = Some ''== a ==''\<rparr> = Inr ''## == a ==''"
  by (simp add: fm_eval)

lemma format_b: "format_messages \<lparr>text = Some ''== b ==''\<rparr> = Inr ''## == b ==''"
  by (simp add: fm_eval)

lemma format_hello:
  "format_messages \<lparr>text = Some ''hello''\<rparr> =
     Inl (MessageTypeException ''The message doesn't match the pattern'' \<lparr>text = Some ''hello''\<rparr>)"
  by (simp add: fm_eval)

lemma format_absent:
  "format_messages \<lparr>text = None\<rparr> =
     Inl (MessageTypeException ''The message doesn't match the pattern'' \<lparr>text = None\<rparr>)"
  by (simp add: format_messages_def)

section \<open>Repeats of a character class\<close>

lemma star_ch_Nil: "rx_match (Star (Ch P)) [] c k = k [] c"
  by simp

lemma star_ch_Cons:
  "rx_match (Star (Ch P)) (x # xs) c k =
     (if P x then (case rx_match (Star (Ch P)) xs c k of Some y \<Rightarrow> Some y | None \<Rightarrow> k (x # xs) c)
      else k (x # xs) c)"
  by simp

lemma lazy_ch_Nil: "rx_match (StarLazy (Ch P)) [] c k = k [] c"
  by (simp split: option.splits)

lemma lazy_ch_Cons:
  "rx_match (StarLazy (Ch P)) (x # xs) c k =
     (case k (x # xs) c of Some y \<Rightarrow> Some y
      | None \<Rightarrow> if P x then rx_match (StarLazy (Ch P)) xs c k else None)"
  by (simp split: option.splits)

text \<open>A greedy repeat runs over a prefix of the class when the match succeeds behind it.\<close>

lemma greedy_skip:
  assumes "list_all P u" and "rx_match (Star (Ch P)) s c k = Some y"
  shows "rx_match (Star (Ch P)) (u @ s) c k = Some y"
  using assms by (induction u) (simp_all del: rx_match.simps add: star_ch_Cons)

text \<open>A lazy repeat runs over a prefix of the class on which the rest of the pattern fails.\<close>

lemma lazy_skip:
  assumes "list_all P u" and "\<And>x xs. x \<in> set u \<Longrightarrow> k (x # xs) c = None"
  shows "rx_match (StarLazy (Ch P)) (u @ s) c k = rx_match (StarLazy (Ch P)) s c k"
  using assms by (induction u) (simp_all del: rx_match.simps add: lazy_ch_Cons)

section \<open>Substitution\<close>

lemma sub_loop_Nil:
  assumes "match_at r [] False = None"
  shows "sub_loop r t [] False = []"
  using assms by (simp add: sub_loop.simps)

lemma sub_loop_no_match:
  assumes "match_at r (x # xs) False = None"
  shows "sub_loop r t (x # xs) False = x # sub_loop r t xs False"
  using assms by (subst sub_loop.simps) simp

lemma sub_loop_match:
  assumes "match_at r s False = Some (s', c)" and "length s' < length s"
  shows "sub_loop r t s False = expand t c @ sub_loop r t s' False"
  using assms by (subst sub_loop.simps) simp

lemma sub_loop_skip:
  assumes "\<And>x xs. x \<in> set p \<Longrightarrow> match_at r (x # xs) False = None"
  shows "sub_loop r t (p @ s) False = p @ sub_loop r t s False"
  using assms by (induction p) (simp_all add: sub_loop_no_match)

section \<open>The matcher and the language of the pattern\<close>

text \<open>
  The matcher succeeds on a text exactly when the text starts with a string of the language
  of the pattern, provided the rest of the pattern accepts whatever captures it is given.
\<close>

lemma rx_match_sound:
  "rx_match r s c k = Some y \<Longrightarrow> \<exists>w s' c'. w \<in> lang r \<and> s = w @ s' \<and> k s' c' = Some y"
proof (induction r s c k arbitrary: y rule: rx_match.induct)
  case (1 s c k)
  then show ?case by auto
next
  case (2 P s c k)
  then obtain x xs where "s = x # xs" "P x" "k xs c = Some y"
    by (cases s) (auto split: if_splits)
  then show ?case
    by (intro exI [of _ "[x]"] exI [of _ xs] exI [of _ c]) simp
next
  case (3 w s c k)
  then show ?case
    by (auto split: if_splits simp: prefix_def)
next
  case (4 r1 r2 s c k)
  from 4(3) have "rx_match r1 s c (\<lambda>s' c'. rx_match r2 s' c' k) = Some y" by simp
  from 4(2) [OF this] obtain u s1 c1 where
    u: "u \<in> lang r1" "s = u @ s1" "rx_match r2 s1 c1 k = Some y" by blast
  from 4(1) [OF u(3)] obtain v s' c' where
    v: "v \<in> lang r2" "s1 = v @ s'" "k s' c' = Some y" by blast
  from u v show ?case
    by (intro exI [of _ "u @ v"] exI [of _ s'] exI [of _ c']) auto
next
  case (5 r s c k)
  show ?case
  proof (cases "rx_match r s c k")
    case None
    with 5(2) have "k s c = Some y" by simp
    then show ?thesis by (intro exI [of _ "[]"] exI [of _ s] exI [of _ c]) simp
  next
    case (Some z)
    with 5(2) have "rx_match r s c k = Some y" by simp
    from 5(1) [OF this] show ?thesis by auto
  qed
next
  case (6 r s c k)
  let ?K = "\<lambda>s' c'. if length s' < length s then rx_match (Star r) s' c' k else k s' c'"
  show ?case
  proof (cases "rx_match r s c ?K")
    case None
    with 6(3) have "k s c = Some y" by simp
    then show ?thesis
      by (intro exI [of _ "[]"] exI [of _ s] exI [of _ c]) (simp add: star_Nil)
  next
    case (Some z)
    with 6(3) have "rx_match r s c ?K = Some y" by simp
    from 6(2) [OF this] obtain u s1 c1 where
      u: "u \<in> lang r" "s = u @ s1" "?K s1 c1 = Some y" by blast
    show ?thesis
    proof (cases "length s1 < length s")
      case True
      with u(3) have "rx_match (Star r) s1 c1 k = Some y" by simp
      from 6(1) [OF True this] obtain v s' c' where
        v: "v \<in> lang (Star r)" "s1 = v @ s'" "k s' c' = Some y" by blast
      from True u(2) have "u \<noteq> []" by auto
      with u v have "u @ v \<in> lang (Star r)" by (auto intro: star_step)
      with u v show ?thesis
        by (intro exI [of _ "u @ v"] exI [of _ s'] exI [of _ c']) auto
    next
      case False
      with u(3) have "k s1 c1 = Some y" by simp
      moreover from False u(2) have "s1 = s" by auto
      ultimately show ?thesis
        by (intro exI [of _ "[]"] exI [of _ s] exI [of _ c1]) (simp add: star_Nil)
    qed
  qed
next
  case (7 r s c k)
  let ?K = "\<lambda>s' c'. if length s' < length s then rx_match (StarLazy r) s' c' k else k s' c'"
  show ?case
  proof (cases "k s c")
    case (Some z)
    with 7(3) have "k s c = Some y" by simp
    then show ?thesis
      by (intro exI [of _ "[]"] exI [of _ s] exI [of _ c]) (simp add: star_Nil)
  next
    case None
    with 7(3) have "rx_match r s c ?K = Some y" by simp
    from 7(2) [OF None this] obtain u s1 c1 where
      u: "u \<in> lang r" "s = u @ s1" "?K s1 c1 = Some y" by blast
    show ?thesis
    proof (cases "length s1 < length s")
      case True
      with u(3) have "rx_match (StarLazy r) s1 c1 k = Some y" by simp
      from 7(1) [OF None True this] obtain v s' c' where
        v: "v \<in> lang (StarLazy r)" "s1 = v @ s'" "k s' c' = Some y" by blast
      from True u(2) have "u \<noteq> []" by auto
      with u v have "u @ v \<in> lang (StarLazy r)" by (auto intro: star_step)
      with u v show ?thesis
        by (intro exI [of _ "u @ v"] exI [of _ s'] exI [of _ c']) auto
    next
      case False
      with u(3) have "k s1 c1 = Some y" by simp
      moreover from False u(2) have "s1 = s" by auto
      ultimately show ?thesis
        by (intro exI [of _ "[]"] exI [of _ s] exI [of _ c1]) (simp add: star_Nil)
    qed
  qed
next
  case (8 n r s c k)
  from 8(2) have "rx_match r s c (\<lambda>s' c'. k s' ((n, take (length s - length s') s) # c')) = Some y"
    by simp
  from 8(1) [OF this] show ?case by auto
qed

lemma rx_match_complete:
  fixes k :: "string \<Rightarrow> caps \<Rightarrow> 'a option"
  assumes "w \<in> lang r" and "\<And>c'. k s' c' \<noteq> None"
  shows "rx_match r (w @ s') c k \<noteq> None"
  using assms
proof (induction r arbitrary: w s' c k)
  case Eps
  then show ?case by simp
next
  case (Ch P)
  then show ?case by auto
next
  case (Lit v)
  then show ?case by simp
next
  case (Cat r1 r2)
  from Cat.prems(1) obtain u v where uv: "w = u @ v" "u \<in> lang r1" "v \<in> lang r2" by auto
  have "\<And>c'. rx_match r2 (v @ s') c' k \<noteq> None"
    using Cat.IH(2) [OF uv(3), of k s'] Cat.prems(2) by simp
  from Cat.IH(1) [OF uv(2), of "\<lambda>s1 c1. rx_match r2 s1 c1 k" "v @ s'", OF this]
  show ?case using uv(1) by simp
next
  case (Opt r)
  show ?case
  proof (cases "w = []")
    case True
    with Opt.prems(2) show ?thesis by (simp split: option.splits)
  next
    case False
    with Opt.prems(1) have "w \<in> lang r" by simp
    from Opt.IH [OF this, of k s' c] Opt.prems(2) show ?thesis
      by (auto split: option.splits)
  qed
next
  case (Star r)
  from Star.prems(1) have "w \<in> star (lang r)" by simp
  then show ?case
  proof (induction w arbitrary: c rule: star.induct)
    case star_Nil
    from Star.prems(2) [of c] show ?case by (simp split: option.splits)
  next
    case (star_step u v)
    have "\<And>c'. (if length (v @ s') < length (u @ v @ s') then rx_match (Star r) (v @ s') c' k
                   else k (v @ s') c') \<noteq> None"
      using star_step by simp
    from Star.IH [OF star_step(1), of "\<lambda>s1 c1. if length s1 < length (u @ v @ s')
        then rx_match (Star r) s1 c1 k else k s1 c1" "v @ s'" c, OF this]
    show ?case by (auto split: option.splits)
  qed
next
  case (StarLazy r)
  from StarLazy.prems(1) have "w \<in> star (lang r)" by simp
  then show ?case
  proof (induction w arbitrary: c rule: star.induct)
    case star_Nil
    from StarLazy.prems(2) [of c] show ?case by (auto split: option.splits)
  next
    case (star_step u v)
    have "\<And>c'. (if length (v @ s') < length (u @ v @ s') then rx_match (StarLazy r) (v @ s') c' k
                   else k (v @ s') c') \<noteq> None"
      using star_step by simp
    from StarLazy.IH [OF star_step(1), of "\<lambda>s1 c1. if length s1 < length (u @ v @ s')
        then rx_match (StarLazy r) s1 c1 k else k s1 c1" "v @ s'" c, OF this]
    show ?case by (auto split: option.splits)
  qed
next
  case (Grp n r)
  from Grp.prems(1) have "w \<in> lang r" by simp
  from Grp.IH [OF this, of "\<lambda>s1 c1. k s1 ((n, take (length (w @ s') - length s1) (w @ s')) # c1)" s']
    Grp.prems(2)
  show ?case by simp
qed

lemma match_at_iff:
  "match_at r s False \<noteq> None \<longleftrightarrow> (\<exists>w s'. s = w @ s' \<and> w \<in> lang r)"
proof
  assume "match_at r s False \<noteq> None"
  then obtain y where "rx_match r s [] (\<lambda>s' c'. Some (s', c')) = Some y"
    by (auto simp: match_at_def)
  from rx_match_sound [OF this] show "\<exists>w s'. s = w @ s' \<and> w \<in> lang r" by blast
next
  assume "\<exists>w s'. s = w @ s' \<and> w \<in> lang r"
  then obtain w s' where "s = w @ s'" "w \<in> lang r" by blast
  with rx_match_complete [of w r "\<lambda>s' c'. Some (s', c')" s' "[]"]
  show "match_at r s False \<noteq> None" by (simp add: match_at_def)
qed

lemma search_iff:
  "search r t \<noteq> None \<longleftrightarrow> (\<exists>pre w post. t = pre @ w @ post \<and> w \<in> lang r)"
proof (induction t)
  case Nil
  have "search r [] \<noteq> None \<longleftrightarrow> match_at r [] False \<noteq> None" by simp
  also have "\<dots> \<longleftrightarrow> (\<exists>w s'. [] = w @ s' \<and> w \<in> lang r)"
    by (rule match_at_iff)
  also have "\<dots> \<longleftrightarrow> (\<exists>pre w post. [] = pre @ w @ post \<and> w \<in> lang r)"
    by simp
  finally show ?case .
next
  case (Cons x t)
  have "search r (x # t) \<noteq> None \<longleftrightarrow> match_at r (x # t) False \<noteq> None \<or> search r t \<noteq> None"
    by (auto split: option.splits)
  also have "\<dots> \<longleftrightarrow> (\<exists>w post. x # t = w @ post \<and> w \<in> lang r)
       \<or> (\<exists>pre w post. t = pre @ w @ post \<and> w \<in> lang r)"
    by (simp only: match_at_iff Cons.IH)
  also have "\<dots> \<longleftrightarrow> (\<exists>pre w post. x # t = pre @ w @ post \<and> w \<in> lang r)"
  proof
    assume "(\<exists>w post. x # t = w @ post \<and> w \<in> lang r)
       \<or> (\<exists>pre w post. t = pre @ w @ post \<and> w \<in> lang r)"
    then show "\<exists>pre w post. x # t = pre @ w @ post \<and> w \<in> lang r"
    proof
      assume "\<exists>w post. x # t = w @ post \<and> w \<in> lang r"
      then obtain w post where "x # t = [] @ w @ post" "w \<in> lang r" by auto
      then show ?thesis by blast
    next
      assume "\<exists>pre w post. t = pre @ w @ post \<and> w \<in> lang r"
      then obtain pre w post where "x # t = (x # pre) @ w @ post" "w \<in> lang r" by auto
      then show ?thesis by blast
    qed
  next
    assume "\<exists>pre w post. x # t = pre @ w @ post \<and> w \<in> lang r"
    then obtain pre w post where p: "x # t = pre @ w @ post" "w \<in> lang r" by blast
    show "(\<exists>w post. x # t = w @ post \<and> w \<in> lang r)
       \<or> (\<exists>pre w post. t = pre @ w @ post \<and> w \<in> lang r)"
    proof (cases pre)
      case Nil
      with p show ?thesis by auto
    next
      case (Cons a pre')
      with p have "t = pre' @ w @ post" by simp
      with p(2) show ?thesis by blast
    qed
  qed
  finally show ?case .
qed


lemma star_ch: "star {[x] | x. P x} = {w. list_all P w}"
proof (intro set_eqI iffI)
  fix w assume "w \<in> star {[x] | x. P x}"
  then show "w \<in> {w. list_all P w}"
    by (induction rule: star.induct) auto
next
  fix w assume "w \<in> {w. list_all P w}"
  then have "list_all P w" by simp
  then show "w \<in> star {[x] | x. P x}"
  proof (induction w)
    case Nil
    show ?case by (rule star_Nil)
  next
    case (Cons x w)
    then have "[x] \<in> {[x] | x. P x}" and "w \<in> star {[x] | x. P x}" by auto
    from star_step [OF this(1) _ this(2)] show ?case by simp
  qed
qed

lemma in_lang_Cat: "w \<in> lang (Cat a b) \<longleftrightarrow> (\<exists>u v. w = u @ v \<and> u \<in> lang a \<and> v \<in> lang b)"
  by auto

lemma in_lang_star_ch: "w \<in> lang (Star (Ch P)) \<longleftrightarrow> list_all P w"
  by (simp add: star_ch)

lemma in_lang_plus_ch: "w \<in> lang (Plus (Ch P)) \<longleftrightarrow> w \<noteq> [] \<and> list_all P w"
proof
  assume "w \<in> lang (Plus (Ch P))"
  then obtain x v where "w = [x] @ v" "P x" "v \<in> star {[x] | x. P x}"
    by (auto simp: Plus_def)
  then show "w \<noteq> [] \<and> list_all P w" by (simp add: star_ch)
next
  assume a: "w \<noteq> [] \<and> list_all P w"
  then obtain x v where "w = x # v" by (cases w) auto
  with a have "w = [x] @ v" "[x] \<in> lang (Ch P)" "v \<in> lang (Star (Ch P))"
    by (simp_all add: star_ch)
  then show "w \<in> lang (Plus (Ch P))"
    unfolding Plus_def in_lang_Cat by blast
qed

lemma in_lang_opt_lit: "w \<in> lang (Opt (Lit a)) \<longleftrightarrow> w = [] \<or> w = a"
  by auto

text \<open>The language of \<open>CHALLENGE_REGEX\<close> is the set of banners.\<close>

lemma in_lang_CatE:
  assumes "w \<in> lang (Cat a b)"
  obtains u v where "w = u @ v" "u \<in> lang a" "v \<in> lang b"
  using assms by auto

lemma seq_lang:
  assumes "u \<in> lang r" and "v \<in> lang (seq rs)"
  shows "u @ v \<in> lang (seq (r # rs))"
  using assms by auto

lemma challenge_pieces:
  assumes "w \<in> lang CHALLENGE_REGEX"
  shows "\<exists>a e1 ws1 g h q ws2 e2 b z.
    w = a @ e1 @ ws1 @ g @ h @ q @ ws2 @ e2 @ b @ z
    \<and> a \<in> lang (Lit ''=='') \<and> e1 \<in> lang (Opt (Lit ''='')) \<and> ws1 \<in> lang (Plus (Ch is_space))
    \<and>  g \<in> lang (Grp 1 (Plus (Ch word_or_space))) \<and> h \<in> lang (Opt (Lit ''-''))
     \<and> q \<in> lang (Star (Ch word_or_space)) \<and> ws2 \<in> lang (Plus (Ch is_space))
     \<and> e2 \<in> lang (Opt (Lit ''='')) \<and> b \<in> lang (Lit ''=='') \<and> z \<in> lang Eps"
  using assms unfolding CHALLENGE_REGEX_def seq.simps
  apply (elim in_lang_CatE)
  apply hypsubst
  apply (intro exI conjI)
  apply (rule refl)
  apply assumption+
  done


lemma challenge_lang: "w \<in> lang CHALLENGE_REGEX \<longleftrightarrow> challenge_banner w"
proof
  assume "w \<in> lang CHALLENGE_REGEX"
  from challenge_pieces [OF this] obtain a e1 ws1 g h q ws2 e2 b z where
    w: "w = a @ e1 @ ws1 @ g @ h @ q @ ws2 @ e2 @ b @ z"
    and a: "a \<in> lang (Lit ''=='')" and e1: "e1 \<in> lang (Opt (Lit ''=''))"
    and ws1: "ws1 \<in> lang (Plus (Ch is_space))"
    and g: "g \<in> lang (Grp 1 (Plus (Ch word_or_space)))" and h: "h \<in> lang (Opt (Lit ''-''))"
    and q: "q \<in> lang (Star (Ch word_or_space))" and ws2: "ws2 \<in> lang (Plus (Ch is_space))"
    and e2: "e2 \<in> lang (Opt (Lit ''=''))" and b: "b \<in> lang (Lit ''=='')" and z: "z \<in> lang Eps"
    by (elim exE conjE)
  from a b z have abz: "a = ''==''" "b = ''==''" "z = []" by simp_all
  have 1: "w = ''=='' @ e1 @ ws1 @ g @ h @ q @ ws2 @ e2 @ ''==''"
    unfolding w abz by simp
  have 2: "e1 = [] \<or> e1 = ''=''" using e1 unfolding in_lang_opt_lit .
  have 3: "ws1 \<noteq> [] \<and> list_all is_space ws1" using ws1 unfolding in_lang_plus_ch .
  have 4: "g \<noteq> [] \<and> list_all word_or_space g" using g unfolding lang.simps(8) in_lang_plus_ch .
  have 5: "h = [] \<or> h = ''-''" using h unfolding in_lang_opt_lit .
  have 6: "list_all word_or_space q" using q unfolding in_lang_star_ch .
  have 7: "ws2 \<noteq> [] \<and> list_all is_space ws2" using ws2 unfolding in_lang_plus_ch .
  have 8: "e2 = [] \<or> e2 = ''=''" using e2 unfolding in_lang_opt_lit .
  show "challenge_banner w"
    unfolding challenge_banner_def
    apply (rule exI [of _ e1], rule exI [of _ ws1], rule exI [of _ g], rule exI [of _ h],
        rule exI [of _ q], rule exI [of _ ws2], rule exI [of _ e2])
    using 1 2 3 4 5 6 7 8 apply (intro conjI)
              apply (elim conjE, assumption)+
    done
next
  assume "challenge_banner w"
  then obtain e1 ws1 g h q ws2 e2 where
    w: "w = ''=='' @ e1 @ ws1 @ g @ h @ q @ ws2 @ e2 @ ''==''"
    and 2: "e1 = [] \<or> e1 = ''=''" and 3: "ws1 \<noteq> []" "list_all is_space ws1"
    and 4: "g \<noteq> []" "list_all word_or_space g" and 5: "h = [] \<or> h = ''-''"
    and 6: "list_all word_or_space q"
    and 7: "ws2 \<noteq> []" "list_all is_space ws2" and 8: "e2 = [] \<or> e2 = ''=''"
    unfolding challenge_banner_def by (elim exE conjE)
  have e1: "e1 \<in> lang (Opt (Lit ''=''))" unfolding in_lang_opt_lit by (rule 2)
  have ws1: "ws1 \<in> lang (Plus (Ch is_space))" unfolding in_lang_plus_ch using 3 by (intro conjI)
  have g: "g \<in> lang (Grp 1 (Plus (Ch word_or_space)))"
    unfolding lang.simps(8) in_lang_plus_ch using 4 by (intro conjI)
  have h: "h \<in> lang (Opt (Lit ''-''))" unfolding in_lang_opt_lit by (rule 5)
  have q: "q \<in> lang (Star (Ch word_or_space))" unfolding in_lang_star_ch by (rule 6)
  have ws2: "ws2 \<in> lang (Plus (Ch is_space))" unfolding in_lang_plus_ch using 7 by (intro conjI)
  have e2: "e2 \<in> lang (Opt (Lit ''=''))" unfolding in_lang_opt_lit by (rule 8)
  have a: "''=='' \<in> lang (Lit ''=='')" and z: "[] \<in> lang (seq [])" by simp_all
  have "''=='' @ e1 @ ws1 @ g @ h @ q @ ws2 @ e2 @ ''=='' @ [] \<in> lang CHALLENGE_REGEX"
    unfolding CHALLENGE_REGEX_def
    by (intro seq_lang a e1 ws1 g h q ws2 e2 z)
  then show "w \<in> lang CHALLENGE_REGEX" unfolding w by simp
qed

lemma search_challenge: "search CHALLENGE_REGEX t \<noteq> None \<longleftrightarrow> contains_banner t"
  unfolding search_iff contains_banner_def challenge_lang ..

section \<open>The title pattern at the start of a text\<close>

lemma star_dot_end:
  assumes "rest = [] \<or> hd rest = NL" and "k rest c = None"
  shows "rx_match (Star (Ch dot)) rest c k = None"
  using assms by (cases rest) (auto simp: dot_def)

text \<open>The title: a greedy run to the last \<open>]*\<close> of the line.\<close>

lemma greedy_title:
  assumes T: "list_all dot T"
    and rest: "rest = [] \<or> hd rest = NL"
    and ok: "k (CHR '']'' # CHR ''*'' # rest) c = Some y"
    and fails: "\<And>x xs. x \<noteq> CHR '']'' \<Longrightarrow> k (x # xs) c = None"
    and empty: "k [] c = None"
  shows "rx_match (Star (Ch dot)) (T @ CHR '']'' # CHR ''*'' # rest) c k = Some y"
proof -
  have "k rest c = None"
    using rest fails empty by (cases rest) auto
  then have "rx_match (Star (Ch dot)) rest c k = None"
    by (rule star_dot_end [OF rest])
  then have "rx_match (Star (Ch dot)) (CHR '']'' # CHR ''*'' # rest) c k = Some y"
    using ok fails [of "CHR ''*''" rest] by (simp add: star_ch_Cons dot_def del: rx_match.simps)
  from greedy_skip [OF T this] show ?thesis .
qed

text \<open>The date: a greedy run over the line, and back to the last place where the banner follows.\<close>

lemma greedy_banner:
  assumes D: "list_all dot D"
    and ok: "k ('' - Daily Programmer ===*'' @ NL # replicate j NL @ CHR ''*'' # r) c = Some y"
    and fails: "\<And>x1 x2 xs. \<not> is_space x1 \<or> x2 \<noteq> CHR ''-'' \<Longrightarrow> k (x1 # x2 # xs) c = None"
  shows "rx_match (Star (Ch dot))
           (D @ '' - Daily Programmer ===*'' @ NL # replicate j NL @ CHR ''*'' # r) c k = Some y"
proof -
  obtain x2 xs where "replicate j NL @ CHR ''*'' # r = x2 # xs" "x2 \<noteq> CHR ''-''"
    by (cases j) auto
  then have "rx_match (Star (Ch dot)) (NL # replicate j NL @ CHR ''*'' # r) c k = None"
    using fails [of NL x2 xs] by (simp add: star_ch_Cons dot_def del: rx_match.simps)
  then have "rx_match (Star (Ch dot))
               ('' - Daily Programmer ===*'' @ NL # replicate j NL @ CHR ''*'' # r) c k = Some y"
    using ok by (simp add: star_ch_Cons dot_def fails is_space_def del: rx_match.simps)
  from greedy_skip [OF D this] show ?thesis .
qed

lemma lazy_newlines:
  assumes "\<And>xs. k (NL # xs) c = None"
  shows "rx_match (StarLazy (Ch is_newline)) (replicate j NL @ s) c k =
           rx_match (StarLazy (Ch is_newline)) s c k"
  using assms by (induction j) (simp_all add: lazy_ch_Cons is_newline_def del: rx_match.simps)


lemma lazy_newlines_Suc:
  assumes "\<And>xs. k (NL # xs) c = None"
  shows "rx_match (StarLazy (Ch is_newline)) (NL # replicate j NL @ s) c k =
           rx_match (StarLazy (Ch is_newline)) s c k"
  using lazy_newlines [of k c "Suc j" s] assms by simp

lemma lazy_step_ok:
  assumes "k (x # xs) c = Some y"
  shows "rx_match (StarLazy (Ch P)) (x # xs) c k = Some y"
  using assms by (simp add: lazy_ch_Cons del: rx_match.simps)

lemma title_match:
  assumes D: "NL \<notin> set D" and T: "NL \<notin> set T" and rest: "rest = [] \<or> hd rest = NL"
  shows "match_at TITLE_REGEX
           (''*=== '' @ D @ '' - Daily Programmer ===*'' @ replicate (Suc j) NL
              @ ''*['' @ T @ '']*'' @ rest) False
         = Some (rest, [(2, T), (1, D)])"
proof -
  have dD: "list_all dot D" and dT: "list_all dot T"
    using D T by (auto simp: list_all_iff dot_def)
  show ?thesis
    unfolding match_at_def TITLE_REGEX_def
    apply (simp del: rx_match.simps(6,7) add: is_space_def)
    apply (rule greedy_banner [unfolded append_Cons append_Nil])
      apply (rule dD)
     apply (simp del: rx_match.simps(6,7) add: is_space_def)
     apply (subst lazy_newlines_Suc)
      apply simp
     apply (rule lazy_step_ok)
     apply (simp del: rx_match.simps(6,7))
     apply (rule greedy_title)
         apply (rule dT)
        apply (rule rest)
       apply simp
      apply simp
     apply simp
    apply auto
    done
qed

section \<open>Code blocks\<close>

lemma code_blocs_no_match:
  assumes "x \<noteq> CHR 0x60"
  shows "match_at CODE_BLOCS_REGEX (x # xs) False = None"
  using assms by (simp add: match_at_def CODE_BLOCS_REGEX_def)

lemma code_blocs_no_match_Nil: "match_at CODE_BLOCS_REGEX [] False = None"
  by (simp add: match_at_def CODE_BLOCS_REGEX_def)

lemma lazy_body:
  fixes k :: "string \<Rightarrow> caps \<Rightarrow> 'a option"
  assumes X: "CHR 0x60 \<notin> set X"
    and ok: "k (CHR 0x60 # r) c = Some y"
    and fails: "\<And>x xs. x \<noteq> CHR 0x60 \<Longrightarrow> k (x # xs) c = None"
  shows "rx_match (StarLazy (Cat (Star (Ch not_backtick)) (Cat (Star (Ch is_newline)) Eps)))
           (X @ CHR 0x60 # r) c k = Some y"
proof (cases X)
  case Nil
  with ok show ?thesis by simp
next
  case (Cons x X')
  let ?B = "Cat (Star (Ch not_backtick)) (Cat (Star (Ch is_newline)) Eps)"
  let ?s = "X @ CHR 0x60 # r"
  let ?K = "\<lambda>s' c'. if length s' < length ?s then rx_match (StarLazy ?B) s' c' k else k s' c'"
  let ?K1 = "\<lambda>s1 c1. rx_match (Cat (Star (Ch is_newline)) Eps) s1 c1 ?K"
  from Cons X have "x \<noteq> CHR 0x60" by auto
  then have none: "k ?s c = None" using fails Cons by simp
  have nb: "list_all not_backtick X" using X by (auto simp: list_all_iff not_backtick_def)
  have "rx_match (Star (Ch not_backtick)) (CHR 0x60 # r) c ?K1 = Some y"
    using ok Cons by (simp add: not_backtick_def is_newline_def)
  from greedy_skip [OF nb this]
  have "rx_match (Star (Ch not_backtick)) ?s c ?K1 = Some y" .
  then have "rx_match ?B ?s c ?K = Some y" by simp
  with none show ?thesis
    by (subst rx_match.simps) simp
qed

lemma code_blocs_match:
  assumes "CHR 0x60 \<notin> set X"
  shows "match_at CODE_BLOCS_REGEX (''```'' @ X @ ''```'' @ post) False =
           Some (post, [(3, ''```''), (2, X), (1, ''```'')])"
  unfolding match_at_def CODE_BLOCS_REGEX_def
  apply (simp del: rx_match.simps(7))
  apply (rule lazy_body)
  using assms apply simp_all
  done

lemma modification_2_block:
  assumes "CHR 0x60 \<notin> set pre" and "CHR 0x60 \<notin> set X"
  shows "modification_2 (pre @ ''```'' @ X @ ''```'' @ post) =
           pre @ ''```'' @ [NL] @ X @ [NL] @ ''```'' @ modification_2 post"
proof -
  have "sub_loop CODE_BLOCS_REGEX CODE_BLOCS_REPL (pre @ ''```'' @ X @ ''```'' @ post) False
      = pre @ sub_loop CODE_BLOCS_REGEX CODE_BLOCS_REPL (''```'' @ X @ ''```'' @ post) False"
    using assms(1) by (intro sub_loop_skip code_blocs_no_match) auto
  also have "sub_loop CODE_BLOCS_REGEX CODE_BLOCS_REPL (''```'' @ X @ ''```'' @ post) False
      = expand CODE_BLOCS_REPL [(3, ''```''), (2, X), (1, ''```'')]
          @ sub_loop CODE_BLOCS_REGEX CODE_BLOCS_REPL post False"
    by (rule sub_loop_match [OF code_blocs_match [OF assms(2)]]) simp
  finally show ?thesis
    by (simp add: modification_2_def sub_def CODE_BLOCS_REPL_def group_def)
qed

lemma modification_2_plain:
  assumes "CHR 0x60 \<notin> set p"
  shows "modification_2 p = p"
proof -
  have "sub_loop CODE_BLOCS_REGEX CODE_BLOCS_REPL (p @ []) False
      = p @ sub_loop CODE_BLOCS_REGEX CODE_BLOCS_REPL [] False"
    using assms by (intro sub_loop_skip code_blocs_no_match) auto
  then show ?thesis
    by (simp add: modification_2_def sub_def sub_loop_Nil code_blocs_no_match_Nil)
qed

text \<open>
  C4, as the code has it. In a text that has no backtick before an inline block
  \<^verbatim>\<open>```X```\<close>, with no backtick in \<open>X\<close>, the second modification leaves what is before
  the block, writes the opening fence, a newline, \<open>X\<close>, a newline and the closing fence, and
  goes on with the text after the block. It is not idempotent: the pattern matches a block
  whose fences are already on lines of their own, so a second application to the output
  for \<^verbatim>\<open>```X```\<close> puts one more newline on each side of \<open>X\<close>.
\<close>

theorem code_block_step:
  assumes "CHR 0x60 \<notin> set pre" and "CHR 0x60 \<notin> set X"
  shows "modification_2 (pre @ ''```'' @ X @ ''```'' @ post) =
           pre @ ''```'' @ [NL] @ X @ [NL] @ ''```'' @ modification_2 post
       \<and> modification_2 (modification_2 (''```'' @ X @ ''```'')) =
           ''```'' @ [NL, NL] @ X @ [NL, NL] @ ''```''"
proof
  show "modification_2 (pre @ ''```'' @ X @ ''```'' @ post) =
           pre @ ''```'' @ [NL] @ X @ [NL] @ ''```'' @ modification_2 post"
    by (rule modification_2_block [OF assms])
  have e: "modification_2 [] = []"
    by (rule modification_2_plain) simp
  have 1: "modification_2 (''```'' @ X @ ''```'') = ''```'' @ (NL # X @ [NL]) @ ''```''"
    using modification_2_block [of "[]" X "[]"] assms(2) by (simp add: e)
  have 2: "modification_2 (''```'' @ (NL # X @ [NL]) @ ''```'') = ''```'' @ [NL] @ (NL # X @ [NL]) @ [NL] @ ''```''"
    using modification_2_block [of "[]" "NL # X @ [NL]" "[]"] assms(2) by (simp add: e)
  show "modification_2 (modification_2 (''```'' @ X @ ''```'')) =
           ''```'' @ [NL, NL] @ X @ [NL, NL] @ ''```''"
    by (simp only: 1 2) simp
qed


theorem code_block_step_witness:
  "modification_2 ''x```a```'' = ''x```\<newline>a\<newline>```''
   \<and> modification_2 (modification_2 ''```a```'') = ''```\<newline>\<newline>a\<newline>\<newline>```''"
  using code_block_step [of "''x''" "''a''" "[]"]
  by (simp add: modification_2_plain)

text \<open>
  C4 as it is stated fails: applying the second modification twice to \<^verbatim>\<open>```a```\<close> does
  not give what applying it once gives.
\<close>

theorem code_block_not_idempotent:
  "modification_2 (modification_2 ''```a```'') \<noteq> modification_2 ''```a```''"
  by (simp add: modification_2_def rx_eval)

section \<open>Image links\<close>

lemma images_no_match:
  assumes "\<not> prefix (''<'' @ image_prefix) s"
  shows "match_at IMAGES_REGEX s False = None"
  using assms by (cases s) (auto simp: match_at_def IMAGES_REGEX_def)

lemma images_match:
  assumes "CHR ''>'' \<notin> set U" and "NL \<notin> set U"
  shows "match_at IMAGES_REGEX (''<'' @ image_prefix @ U @ ''>'' @ post) False =
           Some (post, [(1, image_prefix @ U)])"
proof -
  have d: "list_all dot U"
    using assms(2) by (auto simp: list_all_iff dot_def)
  show ?thesis
    unfolding match_at_def IMAGES_REGEX_def
    apply (simp del: rx_match.simps(7))
    apply (subst lazy_skip [OF d])
    using assms(1) apply auto[1]
    apply (simp add: lazy_ch_Cons del: rx_match.simps(7))
    done
qed

lemma bracket_not_in_prefix: "CHR ''<'' \<notin> set image_prefix"
  by (simp add: image_prefix_def)

lemma images_straddle:
  assumes "\<not> sublist (''<'' @ image_prefix) (x # p)"
  shows "\<not> prefix (''<'' @ image_prefix) ((x # p) @ ''<'' @ image_prefix @ r)"
proof
  assume "prefix (''<'' @ image_prefix) ((x # p) @ ''<'' @ image_prefix @ r)"
  then consider "prefix (''<'' @ image_prefix) (x # p)"
    | us where "''<'' @ image_prefix = (x # p) @ us" and "prefix us (''<'' @ image_prefix @ r)"
    unfolding prefix_append by blast
  then show False
  proof cases
    case 1
    then have "sublist (''<'' @ image_prefix) (x # p)" by (rule prefix_imp_sublist)
    with assms show False by simp
  next
    case 2
    show False
    proof (cases us)
      case Nil
      with 2(1) have "sublist (''<'' @ image_prefix) (x # p)" by simp
      with assms show False by simp
    next
      case (Cons u us')
      with 2(2) have "u = CHR ''<''" by simp
      with 2(1) Cons have "image_prefix = p @ CHR ''<'' # us'" by auto
      then have "CHR ''<'' \<in> set image_prefix" by (metis in_set_conv_decomp)
      with bracket_not_in_prefix show False by simp
    qed
  qed
qed

lemma images_skip:
  assumes "\<not> sublist (''<'' @ image_prefix) p"
  shows "sub_loop IMAGES_REGEX t (p @ ''<'' @ image_prefix @ r) False =
           p @ sub_loop IMAGES_REGEX t (''<'' @ image_prefix @ r) False"
  using assms
proof (induction p)
  case Nil
  show ?case by simp
next
  case (Cons x p)
  from Cons.prems have "\<not> sublist (''<'' @ image_prefix) p"
    by (auto simp: sublist_Cons_right)
  then have ih: "sub_loop IMAGES_REGEX t (p @ ''<'' @ image_prefix @ r) False =
           p @ sub_loop IMAGES_REGEX t (''<'' @ image_prefix @ r) False"
    by (rule Cons.IH)
  have "match_at IMAGES_REGEX ((x # p) @ ''<'' @ image_prefix @ r) False = None"
    by (rule images_no_match [OF images_straddle [OF Cons.prems]])
  then have "match_at IMAGES_REGEX (x # (p @ ''<'' @ image_prefix @ r)) False = None"
    by simp
  from sub_loop_no_match [OF this] ih show ?case by simp
qed

lemma images_plain:
  assumes "\<not> sublist (''<'' @ image_prefix) p"
  shows "sub_loop IMAGES_REGEX t p False = p"
  using assms
proof (induction p)
  case Nil
  have "match_at IMAGES_REGEX [] False = None"
    by (rule images_no_match) simp
  then show ?case by (rule sub_loop_Nil)
next
  case (Cons x p)
  from Cons.prems have "\<not> sublist (''<'' @ image_prefix) p" and "\<not> prefix (''<'' @ image_prefix) (x # p)"
    by (auto simp: sublist_Cons_right)
  then show ?case
    by (simp add: sub_loop_no_match images_no_match Cons.IH)
qed

text \<open>
  C5. In a text that has no \<^verbatim>\<open><https://assets.leetcode.com/uploads/\<close> before it, a
  bracketed URL with that prefix, closed by the first \<^verbatim>\<open>>\<close> on its line, becomes
  \<^verbatim>\<open>![Illustration](url)\<close> and a newline, and the third modification goes on with the text
  after it, so that every occurrence is rewritten. A text in which that prefix does not
  occur after a \<^verbatim>\<open><\<close>, whatever bracketed URLs it holds, is left as it is.
\<close>

theorem image_links:
  "(\<not> sublist (''<'' @ image_prefix) pre \<and> CHR ''>'' \<notin> set U \<and> NL \<notin> set U \<longrightarrow>
      modification_3 (pre @ ''<'' @ image_prefix @ U @ ''>'' @ post) =
        pre @ ''![Illustration]('' @ image_prefix @ U @ '')'' @ [NL] @ modification_3 post)
   \<and> (\<not> sublist (''<'' @ image_prefix) t \<longrightarrow> modification_3 t = t)"
proof (intro conjI impI)
  assume a: "\<not> sublist (''<'' @ image_prefix) pre \<and> CHR ''>'' \<notin> set U \<and> NL \<notin> set U"
  then have m: "match_at IMAGES_REGEX (''<'' @ image_prefix @ U @ ''>'' @ post) False =
           Some (post, [(1, image_prefix @ U)])"
    by (intro images_match) simp_all
  have "sub_loop IMAGES_REGEX IMAGES_REPL (pre @ ''<'' @ image_prefix @ U @ ''>'' @ post) False
      = pre @ sub_loop IMAGES_REGEX IMAGES_REPL (''<'' @ image_prefix @ U @ ''>'' @ post) False"
    using a by (intro images_skip) simp
  also have "sub_loop IMAGES_REGEX IMAGES_REPL (''<'' @ image_prefix @ U @ ''>'' @ post) False
      = expand IMAGES_REPL [(1, image_prefix @ U)] @ sub_loop IMAGES_REGEX IMAGES_REPL post False"
    by (rule sub_loop_match [OF m]) simp
  finally show "modification_3 (pre @ ''<'' @ image_prefix @ U @ ''>'' @ post) =
        pre @ ''![Illustration]('' @ image_prefix @ U @ '')'' @ [NL] @ modification_3 post"
    by (simp add: modification_3_def sub_def IMAGES_REPL_def group_def)
next
  assume "\<not> sublist (''<'' @ image_prefix) t"
  then show "modification_3 t = t"
    by (simp add: modification_3_def sub_def images_plain)
qed


theorem image_links_witness:
  "modification_3 ''see <https://example.com/a.png> <https://assets.leetcode.com/uploads/x.png>''
     = ''see <https://example.com/a.png> ![Illustration](https://assets.leetcode.com/uploads/x.png)\<newline>''
   \<and> modification_3 ''<https://example.com/a.png>'' = ''<https://example.com/a.png>''"
proof -
  have e: "modification_3 [] = []"
    by (simp add: modification_3_def sub_def images_plain)
  have h1: "\<not> sublist (''<'' @ image_prefix) ''see <https://example.com/a.png> ''"
    by (simp add: image_prefix_def sublist_Cons_right)
  have h2: "\<not> sublist (''<'' @ image_prefix) ''<https://example.com/a.png>''"
    by (simp add: image_prefix_def sublist_Cons_right)
  from image_links [of "''see <https://example.com/a.png> ''" "''x.png''" "[]"
                        "''<https://example.com/a.png>''"] h1 h2 e
  show ?thesis
    by (simp add: image_prefix_def)
qed

section \<open>The writer and the publisher\<close>

lemma write_history_to_file_valid:
  assumes "mode = ''a'' \<or> mode = ''w''"
  shows "write_history_to_file challenges mode w =
    (Inr (),
     w\<lparr>dir_exists := True,
       index_md := Some (if mode = ''a''
                         then (case index_md w of None \<Rightarrow> [] | Some old \<Rightarrow> old) @ challenges
                         else challenges),
       is_repo := True,
       pushed := Some (if mode = ''a''
                         then (case index_md w of None \<Rightarrow> [] | Some old \<Rightarrow> old) @ challenges
                         else challenges),
       trace := trace w @ [Print ''Writing history to file...'']
             @ (if dir_exists w then [] else [MkDir directory])
             @ [FileWrite (directory @ filename) mode challenges, Print ''Done...'',
                Print ''Publishing result...'']
             @ map Git (if is_repo w then amend_commands else init_commands (REPO_URL w))
             @ [Print ''Done.'']\<rparr>)"
  using assms
  by (cases "is_repo w"; cases "dir_exists w")
     (simp_all add: write_history_to_file_def publish_challenges_def write_file_def emit_def
       amend_and_push_def init_and_push_def Let_def)

lemma write_history_to_file_invalid:
  assumes "mode \<noteq> ''a''" and "mode \<noteq> ''w''"
  shows "write_history_to_file challenges mode w =
        (Inl (FileOpeningModeException ''Given mode isn't 'a' or 'w'!''),
         w\<lparr>trace := trace w @ [Print ''Writing history to file...'']\<rparr>)"
  using assms by (simp add: write_history_to_file_def emit_def)

text \<open>
  C6. With a mode other than \<^verbatim>\<open>'a'\<close> and \<^verbatim>\<open>'w'\<close> the writer raises
  \<^verbatim>\<open>FileOpeningModeException\<close> and has done nothing but print its first line: no directory
  is created, the file is not written, the publisher does not run. With one of the two
  modes the writer returns normally, and what it does after the state it was called in is,
  in this order: its first line, the creation of the directory when it is missing, the
  write of the content in that mode, \<^verbatim>\<open>Done...\<close>, and then one run of the publisher, from
  \<^verbatim>\<open>Publishing result...\<close> over its git commands to \<^verbatim>\<open>Done.\<close>
\<close>

theorem writer_mode_check:
  "(mode \<noteq> ''a'' \<and> mode \<noteq> ''w'' \<longrightarrow>
      write_history_to_file challenges mode w =
        (Inl (FileOpeningModeException ''Given mode isn't 'a' or 'w'!''),
         w\<lparr>trace := trace w @ [Print ''Writing history to file...'']\<rparr>))
   \<and> (mode = ''a'' \<or> mode = ''w'' \<longrightarrow>
        fst (write_history_to_file challenges mode w) = Inr () \<and>
        (\<exists>cmds. trace (snd (write_history_to_file challenges mode w)) =
           trace w @ [Print ''Writing history to file...'']
             @ (if dir_exists w then [] else [MkDir directory])
             @ [FileWrite (directory @ filename) mode challenges, Print ''Done...'',
                Print ''Publishing result...'']
             @ map Git cmds @ [Print ''Done.'']))"
proof (intro conjI impI)
  assume "mode \<noteq> ''a'' \<and> mode \<noteq> ''w''"
  then show "write_history_to_file challenges mode w =
        (Inl (FileOpeningModeException ''Given mode isn't 'a' or 'w'!''),
         w\<lparr>trace := trace w @ [Print ''Writing history to file...'']\<rparr>)"
    by (simp add: write_history_to_file_invalid)
next
  assume m: "mode = ''a'' \<or> mode = ''w''"
  show "fst (write_history_to_file challenges mode w) = Inr ()"
    by (simp add: write_history_to_file_valid [OF m])
  show "\<exists>cmds. trace (snd (write_history_to_file challenges mode w)) =
           trace w @ [Print ''Writing history to file...'']
             @ (if dir_exists w then [] else [MkDir directory])
             @ [FileWrite (directory @ filename) mode challenges, Print ''Done...'',
                Print ''Publishing result...'']
             @ map Git cmds @ [Print ''Done.'']"
    by (rule exI [of _ "if is_repo w then amend_commands else init_commands (REPO_URL w)"])
       (simp add: write_history_to_file_valid [OF m])
qed

theorem writer_mode_check_witness:
  "(write_history_to_file ''abc'' ''x'' fresh_world :: (unit exn + unit) \<times> world) =
        (Inl (FileOpeningModeException ''Given mode isn't 'a' or 'w'!''),
         fresh_world\<lparr>trace := [Print ''Writing history to file...'']\<rparr>)
   \<and> fst (write_history_to_file ''abc'' ''w'' fresh_world :: (unit exn + unit) \<times> world) = Inr ()
   \<and> (\<exists>cmds. trace (snd (write_history_to_file ''abc'' ''w'' fresh_world
                              :: (unit exn + unit) \<times> world)) =
           [Print ''Writing history to file...'', MkDir directory,
            FileWrite (directory @ filename) ''w'' ''abc'', Print ''Done...'',
            Print ''Publishing result...'']
             @ map Git cmds @ [Print ''Done.''])"
  using writer_mode_check [of "''x''" "''abc''" fresh_world, where ?'a = unit]
        writer_mode_check [of "''w''" "''abc''" fresh_world, where ?'a = unit]
  by (simp add: fresh_world_def)

text \<open>
  C9. The writer does not look at the length of the content. Called with the empty string
  and mode \<^verbatim>\<open>'a'\<close> or \<^verbatim>\<open>'w'\<close> it creates the directory when it is missing, writes the
  empty content (which leaves the file as it was under \<^verbatim>\<open>'a'\<close> and empties it under
  \<^verbatim>\<open>'w'\<close>) and runs the publisher, which pushes that file. The guard against an empty
  result is in \<^verbatim>\<open>parse_channel_history\<close>: on the empty batch it prints its two lines and
  does not call the writer.
\<close>

theorem writer_accepts_empty:
  assumes "mode = ''a'' \<or> mode = ''w''"
  shows "write_history_to_file [] mode w =
    (Inr (),
     w\<lparr>dir_exists := True,
       index_md := Some (if mode = ''a'' then (case index_md w of None \<Rightarrow> [] | Some old \<Rightarrow> old)
                         else []),
       is_repo := True,
       pushed := Some (if mode = ''a'' then (case index_md w of None \<Rightarrow> [] | Some old \<Rightarrow> old)
                       else []),
       trace := trace w @ [Print ''Writing history to file...'']
             @ (if dir_exists w then [] else [MkDir directory])
             @ [FileWrite (directory @ filename) mode [], Print ''Done...'',
                Print ''Publishing result...'']
             @ map Git (if is_repo w then amend_commands else init_commands (REPO_URL w))
             @ [Print ''Done.'']\<rparr>)
   \<and> parse_channel_history \<lparr>messages = Some []\<rparr> w =
       (Inr (), w\<lparr>trace := trace w @ [Print ''Parsing and formating history...'',
                                      Print ''Done...'']\<rparr>)"
proof
  show "write_history_to_file [] mode w =
    (Inr (),
     w\<lparr>dir_exists := True,
       index_md := Some (if mode = ''a'' then (case index_md w of None \<Rightarrow> [] | Some old \<Rightarrow> old)
                         else []),
       is_repo := True,
       pushed := Some (if mode = ''a'' then (case index_md w of None \<Rightarrow> [] | Some old \<Rightarrow> old)
                       else []),
       trace := trace w @ [Print ''Writing history to file...'']
             @ (if dir_exists w then [] else [MkDir directory])
             @ [FileWrite (directory @ filename) mode [], Print ''Done...'',
                Print ''Publishing result...'']
             @ map Git (if is_repo w then amend_commands else init_commands (REPO_URL w))
             @ [Print ''Done.'']\<rparr>)"
    by (simp add: write_history_to_file_valid [OF assms])
  show "parse_channel_history \<lparr>messages = Some []\<rparr> w =
       (Inr (), w\<lparr>trace := trace w @ [Print ''Parsing and formating history...'',
                                      Print ''Done...'']\<rparr>)"
    by (simp add: parse_channel_history_def emit_def Let_def)
qed

theorem writer_accepts_empty_witness:
  "(write_history_to_file [] ''w'' fresh_world :: (unit exn + unit) \<times> world) =
    (Inr (),
     fresh_world\<lparr>dir_exists := True, index_md := Some [], is_repo := True, pushed := Some [],
       trace := [Print ''Writing history to file...'', MkDir directory,
                 FileWrite (directory @ filename) ''w'' [], Print ''Done...'',
                 Print ''Publishing result...'']
             @ map Git (init_commands ''git@github.com:73VW/Daily-Programmer-Bot.git'')
             @ [Print ''Done.'']\<rparr>)"
  using writer_accepts_empty [of "''w''" fresh_world, where ?'a = unit and ?'b = unit]
  by (simp add: fresh_world_def)

section \<open>The aggregator and the two entry points\<close>

lemma format_messages_cases:
  "(\<exists>t. format_messages m = Inr t) \<or>
   (\<exists>e. format_messages m = Inl (MessageTypeException e m))"
  by (simp add: format_messages_def split: option.splits)

lemma transformed_documents_Nil: "transformed_documents [] = []"
  by (simp add: transformed_documents_def)

lemma transformed_documents_Cons:
  "transformed_documents (m # ms) =
     (case format_messages m of Inr t \<Rightarrow> [t] | Inl e \<Rightarrow> []) @ transformed_documents ms"
  by (simp add: transformed_documents_def)

lemma transformed_documents_append:
  "transformed_documents (xs @ ys) = transformed_documents xs @ transformed_documents ys"
  by (simp add: transformed_documents_def)

lemma transformed_documents_rev:
  "transformed_documents (rev ms) = rev (transformed_documents ms)"
  by (induction ms)
     (auto simp: transformed_documents_append transformed_documents_Cons
       transformed_documents_Nil split: sum.splits)

text \<open>The loop with its accumulator, in closed form.\<close>

lemma history_loop_closed:
  "history_loop ms acc =
     Inr (acc @ concat (map (\<lambda>d. d @ challenges_separator) (transformed_documents ms)))"
proof (induction ms arbitrary: acc)
  case Nil
  show ?case by (simp add: transformed_documents_Nil)
next
  case (Cons m ms)
  from format_messages_cases [of m] show ?case
  proof (elim disjE exE)
    fix t assume "format_messages m = Inr t"
    then show ?thesis by (simp add: Cons.IH transformed_documents_Cons)
  next
    fix e assume "format_messages m = Inl (MessageTypeException e m)"
    then show ?thesis by (simp add: Cons.IH transformed_documents_Cons)
  qed
qed

lemma length_transformed_documents:
  "length (transformed_documents ms) = length (filter (\<lambda>m. \<not> isl (format_messages m)) ms)"
  by (induction ms)
     (auto simp: transformed_documents_Cons transformed_documents_Nil split: sum.splits)

lemma joined_empty_iff:
  "concat (map (\<lambda>d. d @ challenges_separator) ds) = [] \<longleftrightarrow> ds = []"
  by (cases ds) (simp_all add: challenges_separator_def)

lemma parse_channel_history_some:
  assumes "messages ch = Some ms" and "transformed_documents (rev ms) \<noteq> []"
  shows "parse_channel_history ch w =
     write_history_to_file
       (concat (map (\<lambda>d. d @ challenges_separator) (transformed_documents (rev ms)))) ''w''
       (w\<lparr>trace := trace w @ [Print ''Parsing and formating history...'', Print ''Done...'']\<rparr>)"
proof -
  from assms(2)
  have "concat (map (\<lambda>d. d @ challenges_separator) (transformed_documents (rev ms))) \<noteq> []"
    by (simp only: joined_empty_iff not_False_eq_True)
  with assms(1) show ?thesis
    by (simp add: parse_channel_history_def history_loop_closed Let_def emit_def
             del: concat_eq_Nil_conv)
qed

lemma parse_channel_history_none:
  assumes "messages ch = Some ms" and "transformed_documents (rev ms) = []"
  shows "parse_channel_history ch w =
           (Inr (), w\<lparr>trace := trace w @ [Print ''Parsing and formating history...'',
                                          Print ''Done...'']\<rparr>)"
  using assms by (simp add: parse_channel_history_def history_loop_closed emit_def Let_def)

lemma parse_message_ok:
  assumes "format_messages m = Inr t"
  shows "parse_message m w = write_history_to_file t ''a'' w"
  using assms by (simp add: parse_message_def)

text \<open>
  C3. For a batch \<open>ms\<close> as it arrives, newest first: the documents that the loop sees are
  those of the reversed batch, which are the documents of the batch in reverse order, so
  oldest first; there are as many of them as there are messages that the transformer
  accepts; the loop returns each document followed by the separator, in that order, so the
  last document has the separator after it as well; and when there is at least one
  document, this string is the content of the file afterwards. Nothing depends on whether
  some message of the batch is rejected.
\<close>

theorem aggregate_documents:
  assumes "messages ch = Some ms"
  shows "transformed_documents (rev ms) = rev (transformed_documents ms)
     \<and> length (transformed_documents (rev ms))
         = length (filter (\<lambda>m. \<not> isl (format_messages m)) ms)
     \<and> history_loop (rev ms) []
         = Inr (concat (map (\<lambda>d. d @ challenges_separator) (transformed_documents (rev ms))))
     \<and> (transformed_documents (rev ms) \<noteq> [] \<longrightarrow>
          index_md (snd (parse_channel_history ch w))
            = Some (concat (map (\<lambda>d. d @ challenges_separator)
                              (transformed_documents (rev ms)))))"
proof (intro conjI impI)
  show "transformed_documents (rev ms) = rev (transformed_documents ms)"
    by (rule transformed_documents_rev)
  show "length (transformed_documents (rev ms))
         = length (filter (\<lambda>m. \<not> isl (format_messages m)) ms)"
    by (simp add: transformed_documents_rev length_transformed_documents)
  show "history_loop (rev ms) []
         = Inr (concat (map (\<lambda>d. d @ challenges_separator) (transformed_documents (rev ms))))"
    by (simp add: history_loop_closed)
next
  assume ne: "transformed_documents (rev ms) \<noteq> []"
  show "index_md (snd (parse_channel_history ch w))
            = Some (concat (map (\<lambda>d. d @ challenges_separator)
                              (transformed_documents (rev ms))))"
    by (simp add: parse_channel_history_some [OF assms ne] write_history_to_file_valid)
qed

theorem aggregate_documents_witness:
  "transformed_documents
      (rev [\<lparr>text = Some ''== b ==''\<rparr>, \<lparr>text = Some ''hello''\<rparr>, \<lparr>text = Some ''== a ==''\<rparr>])
     = [''## == a =='', ''## == b =='']
   \<and> history_loop
       (rev [\<lparr>text = Some ''== b ==''\<rparr>, \<lparr>text = Some ''hello''\<rparr>, \<lparr>text = Some ''== a ==''\<rparr>]) []
     = Inr (''## == a =='' @ challenges_separator @ ''## == b =='' @ challenges_separator)
   \<and> index_md (snd (parse_channel_history
        \<lparr>messages = Some [\<lparr>text = Some ''== b ==''\<rparr>, \<lparr>text = Some ''hello''\<rparr>,
                           \<lparr>text = Some ''== a ==''\<rparr>]\<rparr> fresh_world))
      = Some (''## == a =='' @ challenges_separator @ ''## == b =='' @ challenges_separator)"
  using aggregate_documents
    [of "\<lparr>messages = Some [\<lparr>text = Some ''== b ==''\<rparr>, \<lparr>text = Some ''hello''\<rparr>,
                            \<lparr>text = Some ''== a ==''\<rparr>]\<rparr>"
        "[\<lparr>text = Some ''== b ==''\<rparr>, \<lparr>text = Some ''hello''\<rparr>, \<lparr>text = Some ''== a ==''\<rparr>]"
        fresh_world]
  by (simp add: transformed_documents_def format_a format_b format_hello)

text \<open>
  C7. When the transformer rejects every message of the batch, \<^verbatim>\<open>parse_channel_history\<close>
  returns normally and has done nothing but print its two lines: the writer is not called,
  so nothing is written and nothing is published.
\<close>

theorem no_match_no_write:
  assumes "messages ch = Some ms" and "\<forall>m\<in>set ms. isl (format_messages m)"
  shows "parse_channel_history ch w =
           (Inr (), w\<lparr>trace := trace w @ [Print ''Parsing and formating history...'',
                                          Print ''Done...'']\<rparr>)"
proof -
  from assms(2) have "transformed_documents (rev ms) = []"
    by (auto simp: transformed_documents_def split: sum.splits)
  with assms(1) show ?thesis
    by (rule parse_channel_history_none)
qed

theorem no_match_no_write_witness:
  "list_all (\<lambda>m. isl (format_messages m)) [\<lparr>text = Some ''hello''\<rparr>, \<lparr>text = None\<rparr>]
   \<and> parse_channel_history \<lparr>messages = Some [\<lparr>text = Some ''hello''\<rparr>, \<lparr>text = None\<rparr>]\<rparr>
        fresh_world =
       (Inr (), fresh_world\<lparr>trace := [Print ''Parsing and formating history...'',
                                        Print ''Done...'']\<rparr>)"
  using no_match_no_write
    [of "\<lparr>messages = Some [\<lparr>text = Some ''hello''\<rparr>, \<lparr>text = None\<rparr>]\<rparr>"
        "[\<lparr>text = Some ''hello''\<rparr>, \<lparr>text = None\<rparr>]" fresh_world]
  by (simp add: format_hello format_absent fresh_world_def)

text \<open>
  C8. When the batch has at least one document, \<^verbatim>\<open>parse_channel_history\<close> calls the
  writer with the joined documents and mode \<^verbatim>\<open>'w'\<close>, and the file afterwards holds the
  joined documents and nothing else. When the transformer accepts the message,
  \<^verbatim>\<open>parse_message\<close> calls the writer with the document and mode \<^verbatim>\<open>'a'\<close>, and the file
  afterwards holds what it held before (nothing, when it did not exist) followed by the
  document, with no separator.
\<close>

theorem entry_point_modes:
  "(messages ch = Some ms \<and> transformed_documents (rev ms) \<noteq> [] \<longrightarrow>
      parse_channel_history ch w =
        write_history_to_file
          (concat (map (\<lambda>d. d @ challenges_separator) (transformed_documents (rev ms)))) ''w''
          (w\<lparr>trace := trace w @ [Print ''Parsing and formating history...'',
                                  Print ''Done...'']\<rparr>)
      \<and> index_md (snd (parse_channel_history ch w))
          = Some (concat (map (\<lambda>d. d @ challenges_separator) (transformed_documents (rev ms)))))
   \<and> (format_messages m = Inr t \<longrightarrow>
      parse_message m w = write_history_to_file t ''a'' w
      \<and> index_md (snd (parse_message m w))
          = Some ((case index_md w of None \<Rightarrow> [] | Some old \<Rightarrow> old) @ t))"
proof (intro conjI impI)
  assume a: "messages ch = Some ms \<and> transformed_documents (rev ms) \<noteq> []"
  then show "parse_channel_history ch w =
        write_history_to_file
          (concat (map (\<lambda>d. d @ challenges_separator) (transformed_documents (rev ms)))) ''w''
          (w\<lparr>trace := trace w @ [Print ''Parsing and formating history...'',
                                  Print ''Done...'']\<rparr>)"
    by (simp add: parse_channel_history_some)
  from a show "index_md (snd (parse_channel_history ch w))
          = Some (concat (map (\<lambda>d. d @ challenges_separator) (transformed_documents (rev ms))))"
    by (simp add: parse_channel_history_some write_history_to_file_valid)
next
  assume b: "format_messages m = Inr t"
  then show "parse_message m w = write_history_to_file t ''a'' w"
    by (rule parse_message_ok)
  from b show "index_md (snd (parse_message m w))
          = Some ((case index_md w of None \<Rightarrow> [] | Some old \<Rightarrow> old) @ t)"
    by (simp add: parse_message_ok write_history_to_file_valid)
qed

theorem entry_point_modes_witness:
  "index_md (snd (parse_channel_history \<lparr>messages = Some [\<lparr>text = Some ''== a ==''\<rparr>]\<rparr>
                    (fresh_world\<lparr>dir_exists := True, index_md := Some ''old''\<rparr>)))
     = Some (''## == a =='' @ challenges_separator)
   \<and> index_md (snd (parse_message \<lparr>text = Some ''== b ==''\<rparr>
                      (fresh_world\<lparr>dir_exists := True, index_md := Some ''old''\<rparr>)))
     = Some ''old## == b ==''"
  using entry_point_modes
    [of "\<lparr>messages = Some [\<lparr>text = Some ''== a ==''\<rparr>]\<rparr>" "[\<lparr>text = Some ''== a ==''\<rparr>]"
        "fresh_world\<lparr>dir_exists := True, index_md := Some ''old''\<rparr>"
        "\<lparr>text = Some ''== b ==''\<rparr>" "''## == b ==''"]
  by (simp add: transformed_documents_def format_a format_b write_history_to_file_valid)



section \<open>The pattern matcher\<close>

lemma search_challenge_None: "search CHALLENGE_REGEX t = None \<longleftrightarrow> \<not> contains_banner t"
  using search_challenge [of t] by blast

lemma transformed_documents_skip:
  assumes "isl (format_messages m)"
  shows "transformed_documents (rev (ms1 @ m # ms2)) = transformed_documents (rev (ms1 @ ms2))"
  using assms
  by (auto simp: transformed_documents_append transformed_documents_Cons
        transformed_documents_Nil split: sum.splits)

lemma parse_channel_history_skip:
  assumes "isl (format_messages m)"
  shows "parse_channel_history \<lparr>messages = Some (ms1 @ m # ms2)\<rparr> w =
         parse_channel_history \<lparr>messages = Some (ms1 @ ms2)\<rparr> w"
proof (cases "transformed_documents (rev (ms1 @ ms2)) = []")
  case True
  then have "transformed_documents (rev (ms1 @ m # ms2)) = []"
    by (simp only: transformed_documents_skip [OF assms])
  with True show ?thesis
    by (simp add: parse_channel_history_none)
next
  case False
  then have "transformed_documents (rev (ms1 @ m # ms2)) \<noteq> []"
    by (simp only: transformed_documents_skip [OF assms] not_False_eq_True)
  with False show ?thesis
    by (simp add: parse_channel_history_some transformed_documents_skip [OF assms]
             del: rev_append rev.simps)
qed

text \<open>
  C2, as the code has it. The transformer raises \<^verbatim>\<open>MessageTypeException\<close>, with the
  message it was given, exactly when the text is absent or contains no banner, where a
  banner has two or three equals signs on each side; an empty text contains none. It
  returns a document exactly when the text is present and contains a banner. A message on
  which the transformer raises changes nothing in a batch: \<^verbatim>\<open>parse_channel_history\<close> gives
  the same result and the same world with the message as without it, wherever it stands,
  and \<^verbatim>\<open>parse_message\<close> returns normally and leaves the world as it was.
\<close>

theorem not_a_challenge:
  "(format_messages m = Inl (MessageTypeException ''The message doesn't match the pattern'' m)
      \<longleftrightarrow> (case text m of None \<Rightarrow> True | Some t \<Rightarrow> \<not> contains_banner t))
   \<and> ((\<exists>t. format_messages m = Inr t)
      \<longleftrightarrow> (case text m of None \<Rightarrow> False | Some t \<Rightarrow> contains_banner t))
   \<and> (isl (format_messages m) \<longrightarrow>
        parse_channel_history \<lparr>messages = Some (ms1 @ m # ms2)\<rparr> w =
          parse_channel_history \<lparr>messages = Some (ms1 @ ms2)\<rparr> w
        \<and> parse_message m w = (Inr (), w))"
proof (intro conjI impI)
  show "format_messages m = Inl (MessageTypeException ''The message doesn't match the pattern'' m)
      \<longleftrightarrow> (case text m of None \<Rightarrow> True | Some t \<Rightarrow> \<not> contains_banner t)"
    by (simp add: format_messages_def search_challenge_None split: option.splits)
  show "(\<exists>t. format_messages m = Inr t)
      \<longleftrightarrow> (case text m of None \<Rightarrow> False | Some t \<Rightarrow> contains_banner t)"
    by (simp add: format_messages_def search_challenge_None split: option.splits)
next
  assume r: "isl (format_messages m)"
  then show "parse_channel_history \<lparr>messages = Some (ms1 @ m # ms2)\<rparr> w =
          parse_channel_history \<lparr>messages = Some (ms1 @ ms2)\<rparr> w"
    by (rule parse_channel_history_skip)
  from r format_messages_cases [of m] show "parse_message m w = (Inr (), w)"
    by (auto simp: parse_message_def)
qed

theorem not_a_challenge_witness:
  "format_messages \<lparr>text = Some ''hello''\<rparr> =
     Inl (MessageTypeException ''The message doesn't match the pattern'' \<lparr>text = Some ''hello''\<rparr>)
   \<and> \<not> contains_banner ''hello''
   \<and> contains_banner ''== a ==''
   \<and> parse_channel_history
        \<lparr>messages = Some [\<lparr>text = Some ''== b ==''\<rparr>, \<lparr>text = Some ''hello''\<rparr>,
                           \<lparr>text = Some ''== a ==''\<rparr>]\<rparr> fresh_world
     = parse_channel_history
        \<lparr>messages = Some [\<lparr>text = Some ''== b ==''\<rparr>, \<lparr>text = Some ''== a ==''\<rparr>]\<rparr> fresh_world
   \<and> parse_message \<lparr>text = Some ''hello''\<rparr> fresh_world = (Inr (), fresh_world)"
  using not_a_challenge [of "\<lparr>text = Some ''hello''\<rparr>" "[\<lparr>text = Some ''== b ==''\<rparr>]"
                            "[\<lparr>text = Some ''== a ==''\<rparr>]" fresh_world]
        not_a_challenge [of "\<lparr>text = Some ''== a ==''\<rparr>" "[]" "[]" fresh_world]
  by (simp add: format_hello format_a)

text \<open>
  C2 as it is stated fails: the text \<^verbatim>\<open>== a ==\<close> has no three equals signs in a row, so
  no part of it has the form \<^verbatim>\<open>=== words ===\<close>, and the transformer accepts it.
\<close>

theorem two_equals_signs_accepted:
  "\<not> sublist ''==='' ''== a =='' \<and> format_messages \<lparr>text = Some ''== a ==''\<rparr> = Inr ''## == a ==''"
  by (simp add: format_a sublist_Cons_right)

section \<open>The title line\<close>

lemma banner_in_title_text:
  assumes "list_all word_or_space D"
  shows "contains_banner (''*=== '' @ D @ '' - Daily Programmer ===*'' @ X)"
proof -
  have b: "challenge_banner
        (''=='' @ ''='' @ '' '' @ (D @ '' '') @ ''-'' @ '' Daily Programmer'' @ '' '' @ ''='' @ ''=='')"
    unfolding challenge_banner_def
    apply (rule exI [of _ "''=''"], rule exI [of _ "'' ''"], rule exI [of _ "D @ '' ''"],
        rule exI [of _ "''-''"], rule exI [of _ "'' Daily Programmer''"], rule exI [of _ "'' ''"],
        rule exI [of _ "''=''"])
    using assms by (simp add: word_or_space_def is_space_def is_word_def)
  show ?thesis
    unfolding contains_banner_def
    apply (rule exI [of _ "''*''"])
    apply (rule exI [of _ "''=='' @ ''='' @ '' '' @ (D @ '' '') @ ''-'' @ '' Daily Programmer'' @ '' '' @ ''='' @ ''==''"])
    apply (rule exI [of _ "''*'' @ X"])
    using b by simp
qed

lemma word_or_space_plain:
  assumes "list_all word_or_space D"
  shows "CHR 0x60 \<notin> set D" and "CHR ''<'' \<notin> set D"
proof -
  have "\<not> word_or_space (CHR 0x60)" and "\<not> word_or_space CHR ''<''"
    by (simp_all add: word_or_space_def is_space_def is_word_def)
  with assms show "CHR 0x60 \<notin> set D" and "CHR ''<'' \<notin> set D"
    by (auto simp: list_all_iff)
qed

lemma modification_2_skip:
  assumes "CHR 0x60 \<notin> set p"
  shows "modification_2 (p @ s) = p @ modification_2 s"
  unfolding modification_2_def sub_def
  using assms by (intro sub_loop_skip code_blocs_no_match) auto

lemma modification_3_skip:
  assumes "CHR ''<'' \<notin> set p"
  shows "modification_3 (p @ s) = p @ modification_3 s"
  unfolding modification_3_def sub_def
  using assms by (intro sub_loop_skip images_no_match) auto

text \<open>
  C1, as the code has it. The text begins with \<^verbatim>\<open>*=== D - Daily Programmer ===*\<close>, where
  the date phrase \<open>D\<close> is made of word characters and white space other than a newline;
  one or more newlines follow, and then \<^verbatim>\<open>*[T]*\<close> up to the end of its line, where the
  title \<open>T\<close> has no newline, no backtick and no \<^verbatim>\<open><\<close>. Then the transformer returns a
  document that begins with \<^verbatim>\<open>## T -- D\<close>.
\<close>

theorem title_heading:
  assumes D: "list_all word_or_space D" "NL \<notin> set D"
    and T: "NL \<notin> set T" "CHR 0x60 \<notin> set T" "CHR ''<'' \<notin> set T"
    and n: "0 < n"
    and rest: "rest = [] \<or> hd rest = NL"
    and m: "text m = Some (''*=== '' @ D @ '' - Daily Programmer ===*'' @ replicate n NL
                             @ ''*['' @ T @ '']*'' @ rest)"
  shows "\<exists>tail. format_messages m = Inr (''## '' @ T @ '' -- '' @ D @ tail)"
proof -
  let ?t = "''*=== '' @ D @ '' - Daily Programmer ===*'' @ replicate n NL
              @ ''*['' @ T @ '']*'' @ rest"
  let ?p = "''## '' @ T @ '' -- '' @ D"
  from n obtain j where j: "n = Suc j" by (cases n) auto
  have "contains_banner ?t"
    by (rule banner_in_title_text [OF D(1)])
  then have acc: "search CHALLENGE_REGEX ?t \<noteq> None"
    by (simp only: search_challenge)
  have "match_at TITLE_REGEX ?t False = Some (rest, [(2, T), (1, D)])"
    unfolding j by (rule title_match [OF D(2) T(1) rest])
  from sub_loop_match [OF this]
  have "sub_loop TITLE_REGEX TITLE_REPL ?t False
          = expand TITLE_REPL [(2, T), (1, D)] @ sub_loop TITLE_REGEX TITLE_REPL rest False"
    by simp
  then have m1: "modification_1 ?t = ?p @ sub_loop TITLE_REGEX TITLE_REPL rest False"
    by (simp add: modification_1_def sub_def TITLE_REPL_def group_def)
  from word_or_space_plain [OF D(1)] T
  have p: "CHR 0x60 \<notin> set ?p" "CHR ''<'' \<notin> set ?p" by simp_all
  have "modification_3 (modification_2 (modification_1 ?t))
          = ?p @ modification_3 (modification_2 (sub_loop TITLE_REGEX TITLE_REPL rest False))"
    by (simp only: m1 modification_2_skip [OF p(1)] modification_3_skip [OF p(2)])
  with m acc show ?thesis
    by (simp add: format_messages_def)
qed

theorem title_heading_witness:
  "\<exists>tail. format_messages
      \<lparr>text = Some ''*=== Wednesday October 27th 2020 - Daily Programmer ===*\<newline>\<newline>*[Binary Tree Postorder Traversal]*\<newline>```Input: root = []\<newline>Output: []```''\<rparr>
     = Inr (''## Binary Tree Postorder Traversal -- Wednesday October 27th 2020'' @ tail)"
proof -
  have D: "list_all word_or_space ''Wednesday October 27th 2020''"
    by (simp add: word_or_space_def is_word_def is_space_def)
  from title_heading [OF D, of "''Binary Tree Postorder Traversal''" "Suc (Suc 0)"
      "''\<newline>```Input: root = []\<newline>Output: []```''"
      "\<lparr>text = Some ''*=== Wednesday October 27th 2020 - Daily Programmer ===*\<newline>\<newline>*[Binary Tree Postorder Traversal]*\<newline>```Input: root = []\<newline>Output: []```''\<rparr>"]
  show ?thesis by simp
qed

text \<open>
  C1 as it is stated fails: the substitution replaces the title pattern where it stands, and
  \<^verbatim>\<open>##\<close> is put before the whole text, so text before the pattern stays before the title.
\<close>

theorem title_after_other_text:
  "format_messages \<lparr>text = Some ''Hi *=== Mon - Daily Programmer ===*\<newline>*[T]*''\<rparr>
     = Inr ''## Hi T -- Mon''
   \<and> \<not> prefix ''## T -- Mon'' ''## Hi T -- Mon''"
  by (simp add: fm_eval)

end
